theory Spec2Isabelle
  imports Main "HOL-Library.Word"
begin

section \<open>Operator: src/operator/main.py\<close>

text \<open>
  Python strings are modelled as \<open>string\<close>, Python's unbounded integers as \<open>int\<close>,
  dictionaries whose keys and values are strings as association lists read with
  \<open>map_of\<close>. A value that may be \<open>None\<close> is an \<open>option\<close>.
\<close>

subsection \<open>Formatting integers in f-strings\<close>

fun show_nat :: "nat \<Rightarrow> string" where
  "show_nat n =
     (if n < 10 then [char_of (48 + n)]
      else show_nat (n div 10) @ [char_of (48 + n mod 10)])"

declare show_nat.simps [simp del]

definition str_int :: "int \<Rightarrow> string" where
  "str_int i = (if i < 0 then CHR ''-'' # show_nat (nat (- i)) else show_nat (nat i))"

subsection \<open>get_job_name (lines 32-43)\<close>

text \<open>
  \<open>hashlib.sha256(s.encode()).hexdigest()\<close> is library code; it is the parameter
  \<open>sha256_hex\<close> of the model. A SHA-256 hex digest has 64 characters, all of them
  hexadecimal digits in lower case; \<open>is_hexdigest\<close> says so of the parameter.
\<close>

definition hex_chars :: "char set" where
  "hex_chars = set ''0123456789abcdef''"

definition is_hexdigest :: "(string \<Rightarrow> string) \<Rightarrow> bool" where
  "is_hexdigest sha256_hex \<longleftrightarrow>
     (\<forall>s. length (sha256_hex s) = 64 \<and> set (sha256_hex s) \<subseteq> hex_chars)"

definition get_job_name :: "(string \<Rightarrow> string) \<Rightarrow> string \<Rightarrow> string \<Rightarrow> string" where
  "get_job_name sha256_hex paymentjob_name namespace =
     (let hash_input = namespace @ ''/'' @ paymentjob_name;
          short_hash = take 8 (sha256_hex hash_input);
          base_name = ''paymentjob-'' @ paymentjob_name;
          base_name = (if length base_name > 54 then take 54 base_name else base_name)
      in base_name @ ''-'' @ short_hash)"

text \<open>
  For examples: the hex digest SHA-256 gives for \<open>billing/checkout\<close>, as the answer of
  the library on every input the examples ask about.
\<close>

definition digest_billing_checkout :: "string \<Rightarrow> string" where
  "digest_billing_checkout s =
     ''4667bfe7071e652d8d634476df4da656f44b82c6cb88348865f94c252f79b64f''"

subsection \<open>The status of a Kubernetes Job, and the API's answers\<close>

record condition =
  cond_type :: string
  cond_status :: string
  cond_message :: "string option"

record job_status =
  active :: "int option"
  succeeded :: "int option"
  failed :: "int option"
  conditions :: "condition list option"

text \<open>\<open>read_namespaced_job\<close> returns the Job or raises \<open>ApiException\<close> with an HTTP status.\<close>

datatype api_result = Found job_status | ApiException int

text \<open>Python's \<open>x and x > 0\<close> on a counter that may be \<open>None\<close>.\<close>

definition positive :: "int option \<Rightarrow> bool" where
  "positive x = (case x of None \<Rightarrow> False | Some n \<Rightarrow> n \<noteq> 0 \<and> n > 0)"

text \<open>Python's truth value of a string that may be \<open>None\<close>.\<close>

definition truthy :: "string option \<Rightarrow> bool" where
  "truthy x = (case x of None \<Rightarrow> False | Some s \<Rightarrow> s \<noteq> [])"

type_synonym status = "(string \<times> string) list"

subsection \<open>update_paymentjob_status (lines 192-211)\<close>

text \<open>The clock read by \<open>get_current_timestamp\<close> is the parameter \<open>now\<close>.\<close>

definition update_paymentjob_status ::
  "string \<Rightarrow> string \<Rightarrow> string option \<Rightarrow> string option \<Rightarrow> status" where
  "update_paymentjob_status now phase job_name message =
     [(''phase'', phase), (''lastUpdateTime'', now)]
     @ (if truthy job_name then [(''jobName'', the job_name)] else [])
     @ (if truthy message then [(''message'', the message)] else [])"

subsection \<open>create_paymentjob (lines 223-294)\<close>

text \<open>The phase the create handler derives from a Job that already exists (lines 245-251).\<close>

definition create_phase :: "job_status \<Rightarrow> string" where
  "create_phase st =
     (if positive (active st) then ''Running''
      else if positive (succeeded st) then ''Succeeded''
      else if positive (failed st) then ''Failed''
      else ''Pending'')"

datatype kopf_event = Info string string | Warn string string

text \<open>
  The handler returns the status to record and the events it posted, or re-raises the
  \<open>ApiException\<close> of the lookup. \<open>create_job\<close> is the answer of
  \<open>create_namespaced_job\<close>: \<open>None\<close> when the Job was created, the reason of the
  \<open>ApiException\<close> otherwise. The Job descriptor built by \<open>build_job_spec\<close> goes to the
  cluster and does not show in the handler's result.
\<close>

definition create_paymentjob ::
  "(string \<Rightarrow> string) \<Rightarrow> string \<Rightarrow> string \<Rightarrow> (string \<Rightarrow> string \<Rightarrow> api_result)
     \<Rightarrow> string option \<Rightarrow> string \<Rightarrow> int + (status \<times> kopf_event list)" where
  "create_paymentjob sha256_hex name namespace read_namespaced_job create_job now =
     (let job_name = get_job_name sha256_hex name namespace in
      case read_namespaced_job job_name namespace of
        Found existing_job \<Rightarrow>
          Inr (update_paymentjob_status now (create_phase existing_job) (Some job_name) None, [])
      | ApiException code \<Rightarrow>
          if code \<noteq> 404 then Inl code
          else (case create_job of
                  None \<Rightarrow>
                    Inr (update_paymentjob_status now ''Pending'' (Some job_name)
                           (Some (''Job '' @ job_name @ '' created'')),
                         [Info ''JobCreated'' (''Created Job '' @ job_name)])
                | Some reason \<Rightarrow>
                    Inr (update_paymentjob_status now ''Failed'' (Some job_name)
                           (Some (''Failed to create Job: '' @ reason)), [])))"

subsection \<open>monitor_job_status (lines 306-386)\<close>

text \<open>Line 333: the phase last recorded, \<open>Pending\<close> when the status has none.\<close>

definition current_phase :: "status \<Rightarrow> string" where
  "current_phase status =
     (if status \<noteq> [] then (case map_of status ''phase'' of Some p \<Rightarrow> p | None \<Rightarrow> ''Pending'')
      else ''Pending'')"

text \<open>Lines 310-312: the Job's name, from the status when it is recorded there.\<close>

definition resolve_job_name :: "(string \<Rightarrow> string) \<Rightarrow> string \<Rightarrow> string \<Rightarrow> status \<Rightarrow> string" where
  "resolve_job_name sha256_hex name namespace status =
     (let job_name = (if status \<noteq> [] then map_of status ''jobName'' else None)
      in if \<not> truthy job_name then get_job_name sha256_hex name namespace else the job_name)"

text \<open>Lines 343-347: the message of the first condition of type Failed with status True.\<close>

fun failure_condition_message :: "condition list \<Rightarrow> string option" where
  "failure_condition_message [] = None"
| "failure_condition_message (c # cs) =
     (if cond_type c = ''Failed'' \<and> cond_status c = ''True''
      then (if truthy (cond_message c) then cond_message c else Some ''Job failed'')
      else failure_condition_message cs)"

text \<open>Lines 337-355: the new phase and its message, from the Job's counters.\<close>

definition derive_phase :: "job_status \<Rightarrow> string \<times> string option" where
  "derive_phase job_status =
     (if positive (succeeded job_status) then (''Succeeded'', Some ''Job completed successfully'')
      else if positive (failed job_status) then
        (let message = (case conditions job_status of
                          None \<Rightarrow> None
                        | Some cs \<Rightarrow> failure_condition_message cs);
             message = (if \<not> truthy message
                        then Some (''Job failed after '' @ str_int (the (failed job_status))
                                   @ '' attempt(s)'')
                        else message)
         in (''Failed'', message))
      else if positive (active job_status) then
        (''Running'', Some (''Job is running ('' @ str_int (the (active job_status))
                            @ '' active pod(s))''))
      else (''Pending'', Some ''Waiting for pod to start''))"

text \<open>
  The handler's result: the fields it assigned to \<open>patch.status\<close>, in the order of the
  assignments, and the events it posted; or the re-raised \<open>ApiException\<close>. The two
  readings of the clock (lines 362 and 370/372) are \<open>now1\<close> and \<open>now2\<close>.
\<close>

definition monitor_job_status ::
  "(string \<Rightarrow> string) \<Rightarrow> string \<Rightarrow> string \<Rightarrow> status \<Rightarrow> (string \<Rightarrow> string \<Rightarrow> api_result)
     \<Rightarrow> string \<Rightarrow> string \<Rightarrow> int + (status \<times> kopf_event list)" where
  "monitor_job_status sha256_hex name namespace status read_namespaced_job now1 now2 =
     (let job_name = resolve_job_name sha256_hex name namespace status in
      case read_namespaced_job job_name namespace of
        ApiException code \<Rightarrow> if code = 404 then Inr ([], []) else Inl code
      | Found job_status \<Rightarrow>
          (let current = current_phase status;
               (new_phase, message) = derive_phase job_status
           in if new_phase \<noteq> current then
                Inr ([(''phase'', new_phase), (''lastUpdateTime'', now1), (''jobName'', job_name)]
                     @ (if truthy message then [(''message'', the message)] else [])
                     @ (if new_phase = ''Running''
                           \<and> \<not> (status \<noteq> [] \<and> truthy (map_of status ''startTime''))
                        then [(''startTime'', now2)]
                        else if new_phase \<in> {''Succeeded'', ''Failed''}
                        then [(''completionTime'', now2)]
                        else []),
                     if new_phase = ''Succeeded''
                     then [Info ''JobSucceeded'' (''Job '' @ job_name @ '' completed successfully'')]
                     else if new_phase = ''Failed''
                     then [Warn ''JobFailed''
                             (if truthy message then the message
                              else ''Job '' @ job_name @ '' failed'')]
                     else [])
              else Inr ([], [])))"

text \<open>
  The framework merges the patch into the resource's status: a patched key takes the
  new value, every other key keeps its own. The status seen by the next tick is the
  merged one; a tick that raises leaves the status as it was.
\<close>

definition apply_patch :: "status \<Rightarrow> status \<Rightarrow> status" where
  "apply_patch status patch = patch @ filter (\<lambda>kv. fst kv \<notin> fst ` set patch) status"

record observation =
  cluster :: "string \<Rightarrow> string \<Rightarrow> api_result"
  clock1 :: string
  clock2 :: string

definition tick ::
  "(string \<Rightarrow> string) \<Rightarrow> string \<Rightarrow> string \<Rightarrow> status \<Rightarrow> observation \<Rightarrow> status" where
  "tick sha256_hex name namespace status ob =
     (case monitor_job_status sha256_hex name namespace status (cluster ob) (clock1 ob) (clock2 ob) of
        Inl code \<Rightarrow> status
      | Inr (patch, events) \<Rightarrow> apply_patch status patch)"

text \<open>The statuses recorded after each tick of a sequence.\<close>

fun ticks ::
  "(string \<Rightarrow> string) \<Rightarrow> string \<Rightarrow> string \<Rightarrow> status \<Rightarrow> observation list \<Rightarrow> status list" where
  "ticks sha256_hex name namespace status [] = []"
| "ticks sha256_hex name namespace status (ob # obs) =
     (let status' = tick sha256_hex name namespace status ob
      in status' # ticks sha256_hex name namespace status' obs)"

text \<open>The order on phases: Pending, then Running, then the two terminal phases.\<close>

definition phase_rank :: "string \<Rightarrow> nat option" where
  "phase_rank p =
     (if p = ''Pending'' then Some 0
      else if p = ''Running'' then Some 1
      else if p = ''Succeeded'' \<or> p = ''Failed'' then Some 2
      else None)"

definition phase_le :: "string \<Rightarrow> string \<Rightarrow> bool" where
  "phase_le p q \<longleftrightarrow>
     p = q \<or> (case (phase_rank p, phase_rank q) of (Some a, Some b) \<Rightarrow> a < b | _ \<Rightarrow> False)"

fun nondecreasing :: "string list \<Rightarrow> bool" where
  "nondecreasing (p # q # ps) = (phase_le p q \<and> nondecreasing (q # ps))"
| "nondecreasing _ = True"

text \<open>
  The phase a tick derives from the cluster, when the Job is found there; and the
  sequences of observations on which no derived phase is below the recorded one.
\<close>

definition observed_phase ::
  "(string \<Rightarrow> string) \<Rightarrow> string \<Rightarrow> string \<Rightarrow> status \<Rightarrow> observation \<Rightarrow> string option" where
  "observed_phase sha256_hex name namespace status ob =
     (case cluster ob (resolve_job_name sha256_hex name namespace status) namespace of
        Found job_status \<Rightarrow> Some (fst (derive_phase job_status))
      | ApiException code \<Rightarrow> None)"

fun observed_nondecreasing ::
  "(string \<Rightarrow> string) \<Rightarrow> string \<Rightarrow> string \<Rightarrow> status \<Rightarrow> observation list \<Rightarrow> bool" where
  "observed_nondecreasing sha256_hex name namespace status [] = True"
| "observed_nondecreasing sha256_hex name namespace status (ob # obs) =
     ((case observed_phase sha256_hex name namespace status ob of
         None \<Rightarrow> True
       | Some p \<Rightarrow> phase_le (current_phase status) p)
      \<and> observed_nondecreasing sha256_hex name namespace
           (tick sha256_hex name namespace status ob) obs)"

text \<open>
  For examples: a tick at which the cluster reports a Job with the given active,
  succeeded and failed counters.
\<close>

definition observe :: "int option \<Rightarrow> int option \<Rightarrow> int option \<Rightarrow> observation" where
  "observe a s f =
     \<lparr>cluster = (\<lambda>job_name namespace.
                   Found \<lparr>active = a, succeeded = s, failed = f, conditions = None\<rparr>),
      clock1 = ''2024-01-01T00:00:00Z'', clock2 = ''2024-01-01T00:00:00Z''\<rparr>"

text \<open>
  The priority of the specification's Phase Deriver: succeeded first, then failed, then
  active, otherwise Pending.
\<close>

definition spec_phase :: "job_status \<Rightarrow> string" where
  "spec_phase st =
     (if positive (succeeded st) then ''Succeeded''
      else if positive (failed st) then ''Failed''
      else if positive (active st) then ''Running''
      else ''Pending'')"

section \<open>Worker: src/worker/main.py\<close>

subsection \<open>get_env and the configuration constants (lines 26-48)\<close>





text \<open>
  \<open>MAX_MESSAGES\<close> is \<open>None\<close>, the empty string or an integer in the source. The empty
  string is false in both of its tests (lines 47 and 213), as \<open>None\<close> is, and is
  \<open>None\<close> in the model.
\<close>

record config =
  RABBITMQ_HOST :: "string option"
  RABBITMQ_PORT :: int
  RABBITMQ_USER :: "string option"
  RABBITMQ_PASS :: "string option"
  POSTGRES_HOST :: "string option"
  POSTGRES_PORT :: int
  POSTGRES_DB :: "string option"
  POSTGRES_USER :: "string option"
  POSTGRES_PASS :: "string option"
  QUEUE_NAME :: "string option"
  MAX_MESSAGES :: "int option"



subsection \<open>Decoding the body (line 187)\<close>

text \<open>
  A message body is a sequence of bytes. \<open>body.decode('utf-8')\<close> gives its code points
  or raises \<open>UnicodeDecodeError\<close> (\<open>None\<close> here): Python's strict decoder refuses stray
  and missing continuation bytes, overlong forms, surrogates and code points above
  10FFFF.
\<close>

type_synonym byte = "8 word"
type_synonym unicode = "nat list"

definition continuation :: "byte \<Rightarrow> bool" where
  "continuation b \<longleftrightarrow> 0x80 \<le> b \<and> b \<le> 0xBF"

definition second_lo :: "byte \<Rightarrow> byte" where
  "second_lo b = (if b = 0xE0 then 0xA0 else if b = 0xF0 then 0x90 else 0x80)"

definition second_hi :: "byte \<Rightarrow> byte" where
  "second_hi b = (if b = 0xED then 0x9F else if b = 0xF4 then 0x8F else 0xBF)"

fun utf8_decode :: "byte list \<Rightarrow> unicode option" where
  "utf8_decode [] = Some []"
| "utf8_decode (b # bs) =
     (if b < 0x80 then map_option ((#) (unat b)) (utf8_decode bs)
      else if 0xC2 \<le> b \<and> b \<le> 0xDF then
        (case bs of
           c1 # rest \<Rightarrow>
             if continuation c1
             then map_option ((#) ((unat b - 0xC0) * 64 + (unat c1 - 0x80))) (utf8_decode rest)
             else None
         | _ \<Rightarrow> None)
      else if 0xE0 \<le> b \<and> b \<le> 0xEF then
        (case bs of
           c1 # c2 # rest \<Rightarrow>
             if second_lo b \<le> c1 \<and> c1 \<le> second_hi b \<and> continuation c2
             then map_option ((#) ((unat b - 0xE0) * 4096 + (unat c1 - 0x80) * 64
                                    + (unat c2 - 0x80))) (utf8_decode rest)
             else None
         | _ \<Rightarrow> None)
      else if 0xF0 \<le> b \<and> b \<le> 0xF4 then
        (case bs of
           c1 # c2 # c3 # rest \<Rightarrow>
             if second_lo b \<le> c1 \<and> c1 \<le> second_hi b \<and> continuation c2 \<and> continuation c3
             then map_option ((#) ((unat b - 0xF0) * 262144 + (unat c1 - 0x80) * 4096
                                    + (unat c2 - 0x80) * 64 + (unat c3 - 0x80)))
                    (utf8_decode rest)
             else None
         | _ \<Rightarrow> None)
      else None)"

subsection \<open>Exceptions, payloads, the database and the channel\<close>

text \<open>
  The exception classes the handlers of \<open>process_message\<close> tell apart; every other
  subclass of \<open>Exception\<close> is \<open>OtherException\<close>.
\<close>

datatype exn = JSONDecodeError | UnicodeDecodeError | Psycopg2Error | OtherException

datatype json =
  JNull | JBool bool | JInt int | JStr unicode | JList "json list" | JDict "(unicode \<times> json) list"

text \<open>
  \<open>json.loads\<close> is library code, a parameter of the model: the value a text denotes,
  or the exception raised. Line 187 decodes, then parses.
\<close>

definition parse_body :: "(unicode \<Rightarrow> exn + json) \<Rightarrow> byte list \<Rightarrow> exn + json" where
  "parse_body json_loads body =
     (case utf8_decode body of
        None \<Rightarrow> Inl UnicodeDecodeError
      | Some t \<Rightarrow> json_loads t)"

record payment =
  payment_id :: nat
  received_at :: nat
  payload :: json
  payment_message_id :: "string option"
  source_queue :: "string option"

text \<open>
  What is seen from outside, in order: the row the INSERT statement executed, the commit
  of the transaction, and the calls on the channel.
\<close>

datatype event =
  Execute payment | Commit | Ack nat | Nack nat bool | StopConsuming

record world =
  payments :: "payment list"
  next_id :: nat
  trace :: "event list"
  consuming :: bool

text \<open>
  What the database does with one \<open>insert_payment\<close>: the statement and the commit
  succeed, or the statement raises, or the commit does. A transaction that does not
  commit leaves no row; the sequence behind the \<open>SERIAL\<close> column keeps the value it gave.
\<close>

datatype db_result = Commits | ExecuteRaises exn | CommitRaises exn

text \<open>
  A delivery is the message with its tag, and what the environment does while it is
  processed: the time \<open>datetime.utcnow()\<close> reads, the answer of the database, and
  whether \<open>get_postgres_connection\<close> succeeds when the handler reconnects.
\<close>

record delivery =
  delivery_tag :: nat
  message_id :: "string option"
  body :: "byte list"
  utcnow :: nat
  db :: db_result
  reconnects :: bool

record worker =
  pg_conn :: nat
  messages_processed :: int

text \<open>The calls on the channel are taken to return: each is recorded in the trace.\<close>

definition basic_ack :: "nat \<Rightarrow> world \<Rightarrow> world" where
  "basic_ack tag wd = wd\<lparr>trace := trace wd @ [Ack tag]\<rparr>"

definition basic_nack :: "nat \<Rightarrow> bool \<Rightarrow> world \<Rightarrow> world" where
  "basic_nack tag requeue wd = wd\<lparr>trace := trace wd @ [Nack tag requeue]\<rparr>"

definition stop_consuming :: "world \<Rightarrow> world" where
  "stop_consuming wd = wd\<lparr>trace := trace wd @ [StopConsuming], consuming := False\<rparr>"

subsection \<open>insert_payment (lines 85-101)\<close>

definition insert_payment ::
  "db_result \<Rightarrow> nat \<Rightarrow> world \<Rightarrow> json \<Rightarrow> string option \<Rightarrow> string option \<Rightarrow> (exn + nat) \<times> world" where
  "insert_payment answer now wd payload' message_id' source_queue' =
     (let row = \<lparr>payment_id = next_id wd, received_at = now, payload = payload',
                 payment_message_id = message_id', source_queue = source_queue'\<rparr>
      in case answer of
           ExecuteRaises e \<Rightarrow> (Inl e, wd)
         | CommitRaises e \<Rightarrow>
             (Inl e, wd\<lparr>next_id := Suc (next_id wd), trace := trace wd @ [Execute row]\<rparr>)
         | Commits \<Rightarrow>
             (Inr (payment_id row),
              wd\<lparr>payments := payments wd @ [row], next_id := Suc (next_id wd),
                 trace := trace wd @ [Execute row, Commit]\<rparr>))"

subsection \<open>PaymentWorker.process_message (lines 177-233)\<close>

text \<open>
  The two outer handlers (lines 217-233): a \<open>psycopg2.Error\<close> is answered by a nack with
  requeue and an attempt to reconnect, whose own failure is swallowed; any other
  exception by a nack with requeue.
\<close>

definition except_handlers :: "exn \<Rightarrow> delivery \<Rightarrow> worker \<times> world \<Rightarrow> worker \<times> world" where
  "except_handlers e d s =
     (let (w, wd) = s in
      if e = Psycopg2Error then
        (let wd = basic_nack (delivery_tag d) True wd
         in if reconnects d then (w\<lparr>pg_conn := Suc (pg_conn w)\<rparr>, wd) else (w, wd))
      else (w, basic_nack (delivery_tag d) True wd))"

text \<open>Line 213: \<open>MAX_MESSAGES and self.messages_processed >= MAX_MESSAGES\<close>.\<close>

definition cap_reached :: "int option \<Rightarrow> int \<Rightarrow> bool" where
  "cap_reached max_messages processed =
     (case max_messages of None \<Rightarrow> False | Some n \<Rightarrow> n \<noteq> 0 \<and> processed \<ge> n)"

definition process_message ::
  "config \<Rightarrow> (unicode \<Rightarrow> exn + json) \<Rightarrow> worker \<times> world \<Rightarrow> delivery \<Rightarrow> worker \<times> world" where
  "process_message cfg json_loads s d =
     (let (w, wd) = s;
          mid = (if truthy (message_id d) then message_id d else None);
          tag = delivery_tag d
      in case parse_body json_loads (body d) of
           Inl e \<Rightarrow>
             if e = JSONDecodeError then (w, basic_nack tag False wd)
             else except_handlers e d (w, wd)
         | Inr payload' \<Rightarrow>
             (case insert_payment (db d) (utcnow d) wd payload' mid (QUEUE_NAME cfg) of
                (Inl e, wd) \<Rightarrow> except_handlers e d (w, wd)
              | (Inr new_id, wd) \<Rightarrow>
                  (let wd = basic_ack tag wd;
                       w = w\<lparr>messages_processed := messages_processed w + 1\<rparr>
                   in if cap_reached (MAX_MESSAGES cfg) (messages_processed w)
                      then (w, stop_consuming wd)
                      else (w, wd))))"

subsection \<open>PaymentWorker.run (lines 235-251)\<close>

text \<open>
  \<open>start_consuming\<close> hands the deliveries to the callback one at a time, in the order
  the broker makes them (a message that was requeued comes again as a later delivery),
  and returns once \<open>stop_consuming\<close> has been called. The result is the state reached
  and the deliveries that were never handed over; with every delivery handled and
  consumption not stopped, the worker waits for more.
\<close>

fun consume ::
  "config \<Rightarrow> (unicode \<Rightarrow> exn + json) \<Rightarrow> worker \<times> world \<Rightarrow> delivery list
     \<Rightarrow> (worker \<times> world) \<times> delivery list" where
  "consume cfg json_loads s [] = (s, [])"
| "consume cfg json_loads s (d # ds) =
     (let s' = process_message cfg json_loads s d
      in if consuming (snd s') then consume cfg json_loads s' ds else (s', ds))"

text \<open>The acknowledgments in a trace, and the deliveries that go through.\<close>

fun is_ack :: "event \<Rightarrow> bool" where
  "is_ack (Ack tag) = True"
| "is_ack _ = False"


definition acks :: "world \<Rightarrow> nat" where
  "acks wd = length (filter is_ack (trace wd))"


text \<open>
  In a sequence of events, every acknowledgment comes after a commit: \<open>committed\<close> says
  whether a commit has been seen so far.
\<close>

fun commit_before_ack :: "bool \<Rightarrow> event list \<Rightarrow> bool" where
  "commit_before_ack committed [] = True"
| "commit_before_ack committed (Commit # es) = commit_before_ack True es"
| "commit_before_ack committed (Ack tag # es) = (committed \<and> commit_before_ack committed es)"
| "commit_before_ack committed (e # es) = commit_before_ack committed es"

definition goes_through :: "(unicode \<Rightarrow> exn + json) \<Rightarrow> delivery \<Rightarrow> bool" where
  "goes_through json_loads d \<longleftrightarrow>
     (case parse_body json_loads (body d) of Inl e \<Rightarrow> False | Inr p \<Rightarrow> db d = Commits)"

subsection \<open>Inputs for examples\<close>





text \<open>
  \<open>json.loads\<close> on the one document \<open>null\<close>; every other text is refused here. The
  bytes of that document, a delivery that carries them and meets a database that
  commits, and a delivery whose body is the single byte FF, which is not UTF-8.
\<close>

definition loads_null :: "unicode \<Rightarrow> exn + json" where
  "loads_null t = (if t = [110, 117, 108, 108] then Inr JNull else Inl JSONDecodeError)"

definition null_body :: "byte list" where
  "null_body = [0x6E, 0x75, 0x6C, 0x6C]"

definition good_delivery :: "nat \<Rightarrow> delivery" where
  "good_delivery tag =
     \<lparr>delivery_tag = tag, message_id = None, body = null_body, utcnow = 0, db = Commits,
      reconnects = True\<rparr>"

definition undecodable_delivery :: "nat \<Rightarrow> delivery" where
  "undecodable_delivery tag =
     \<lparr>delivery_tag = tag, message_id = None, body = [0xFF], utcnow = 0, db = Commits,
      reconnects = True\<rparr>"

text \<open>
  The configuration an empty environment gives, with a processing cap put in; and the
  worker after \<open>__init__\<close> and \<open>setup\<close>, before the first delivery.
\<close>

definition default_config :: "int option \<Rightarrow> config" where
  "default_config cap =
     \<lparr>RABBITMQ_HOST = Some ''localhost'', RABBITMQ_PORT = 5672,
      RABBITMQ_USER = Some ''guest'', RABBITMQ_PASS = Some ''guest'',
      POSTGRES_HOST = Some ''localhost'', POSTGRES_PORT = 5432,
      POSTGRES_DB = Some ''payments_db'', POSTGRES_USER = Some ''postgres'',
      POSTGRES_PASS = Some ''postgres'', QUEUE_NAME = Some ''payments'',
      MAX_MESSAGES = cap\<rparr>"

definition fresh_worker :: worker where
  "fresh_worker = \<lparr>pg_conn = 0, messages_processed = 0\<rparr>"

definition fresh_world :: world where
  "fresh_world = \<lparr>payments = [], next_id = 1, trace = [], consuming = True\<rparr>"

section \<open>Properties of the operator\<close>

subsection \<open>The name of the workload\<close>

lemma digest_is_hexdigest: "is_hexdigest digest_billing_checkout"
  by (simp add: is_hexdigest_def hex_chars_def digest_billing_checkout_def)

lemma job_name_checkout:
  "get_job_name digest_billing_checkout ''checkout'' ''billing'' = ''paymentjob-checkout-4667bfe7''"
  by (simp add: get_job_name_def digest_billing_checkout_def Let_def)

text \<open>
  C8. The workload name is a function of the namespace and the resource name alone (so
  two calls give the same name). It is the base \<open>paymentjob-<name>\<close> cut to at most 54
  characters, a hyphen, and the first 8 characters of the hex digest of
  \<open>namespace/name\<close>; it never has more than 63 characters; and with a digest function
  that returns SHA-256 hex digests the suffix is 8 hexadecimal characters.
\<close>

theorem job_name_form:
  "get_job_name H n ns = take 54 (''paymentjob-'' @ n) @ ''-'' @ take 8 (H (ns @ ''/'' @ n))
   \<and> length (get_job_name H n ns) \<le> 63
   \<and> (is_hexdigest H \<longrightarrow> length (take 8 (H (ns @ ''/'' @ n))) = 8
         \<and> set (take 8 (H (ns @ ''/'' @ n))) \<subseteq> hex_chars)"
proof -
  have a: "get_job_name H n ns = take 54 (''paymentjob-'' @ n) @ ''-'' @ take 8 (H (ns @ ''/'' @ n))"
    by (simp add: get_job_name_def Let_def)
  have b: "length (get_job_name H n ns) \<le> 63"
    by (auto simp: get_job_name_def Let_def)
  have c: "is_hexdigest H \<longrightarrow> length (take 8 (H (ns @ ''/'' @ n))) = 8
         \<and> set (take 8 (H (ns @ ''/'' @ n))) \<subseteq> hex_chars"
    using set_take_subset[of 8 "H (ns @ ''/'' @ n)"] by (auto simp: is_hexdigest_def)
  from a b c show ?thesis by blast
qed

theorem job_name_form_witness:
  "is_hexdigest digest_billing_checkout
   \<and> get_job_name digest_billing_checkout ''checkout'' ''billing'' = ''paymentjob-checkout-4667bfe7''
   \<and> length (get_job_name digest_billing_checkout ''checkout'' ''billing'') \<le> 63"
  using digest_is_hexdigest job_name_form [of digest_billing_checkout "''checkout''" "''billing''"]
  by (simp add: digest_billing_checkout_def)

subsection \<open>The derived phase\<close>

text \<open>The timer derives the phase by the priority of the specification.\<close>

lemma derive_phase_priority: "fst (derive_phase js) = spec_phase js"
  by (simp add: derive_phase_def spec_phase_def Let_def)

text \<open>
  C3. The create handler tests the active counter first. For a Job that exists with
  one active and one failed pod it records Running, where the priority of the
  specification, which the timer follows, gives Failed.
\<close>

theorem create_phase_ignores_priority:
  "create_paymentjob digest_billing_checkout ''checkout'' ''billing''
     (cluster (observe (Some 1) None (Some 1))) None ''2024-01-01T00:00:00Z''
   = Inr ([(''phase'', ''Running''), (''lastUpdateTime'', ''2024-01-01T00:00:00Z''),
           (''jobName'', ''paymentjob-checkout-4667bfe7'')], [])
   \<and> spec_phase \<lparr>active = Some 1, succeeded = None, failed = Some 1, conditions = None\<rparr> = ''Failed''
   \<and> fst (derive_phase \<lparr>active = Some 1, succeeded = None, failed = Some 1, conditions = None\<rparr>) = ''Failed''"
  by (simp add: create_paymentjob_def job_name_checkout update_paymentjob_status_def create_phase_def
      spec_phase_def derive_phase_def positive_def truthy_def Let_def observe_def)

subsection \<open>The timer\<close>

text \<open>
  C4. A tick that finds the recorded phase Failed, with a completionTime already
  recorded, and a Job that has now succeeded, writes completionTime again.
\<close>

theorem completion_time_overwritten:
  "monitor_job_status digest_billing_checkout ''checkout'' ''billing''
     [(''phase'', ''Failed''), (''jobName'', ''paymentjob-checkout-4667bfe7''),
      (''completionTime'', ''2024-01-01T00:00:10Z'')]
     (cluster (observe None (Some 1) (Some 1))) ''2024-01-01T00:00:20Z'' ''2024-01-01T00:00:20Z''
   = Inr ([(''phase'', ''Succeeded''), (''lastUpdateTime'', ''2024-01-01T00:00:20Z''),
           (''jobName'', ''paymentjob-checkout-4667bfe7''), (''message'', ''Job completed successfully''),
           (''completionTime'', ''2024-01-01T00:00:20Z'')],
          [Info ''JobSucceeded'' ''Job paymentjob-checkout-4667bfe7 completed successfully''])"
  by (simp add: monitor_job_status_def resolve_job_name_def current_phase_def derive_phase_def
      positive_def truthy_def Let_def observe_def)

text \<open>
  C5. When the phase derived from the Job equals the recorded phase the tick assigns no
  status field and posts no event; and whenever a tick assigns a status field, the Job
  was found and the phase derived from it differs from the recorded one (the patch then
  carries the derived phase).
\<close>

theorem patch_only_on_phase_change:
  "(\<forall>js. read (resolve_job_name H name ns st) ns = Found js \<longrightarrow>
          fst (derive_phase js) = current_phase st \<longrightarrow>
          monitor_job_status H name ns st read now1 now2 = Inr ([], []))
   \<and> (\<forall>patch events. monitor_job_status H name ns st read now1 now2 = Inr (patch, events) \<longrightarrow>
          patch \<noteq> [] \<longrightarrow>
          (\<exists>js. read (resolve_job_name H name ns st) ns = Found js
                \<and> fst (derive_phase js) \<noteq> current_phase st
                \<and> map_of patch ''phase'' = Some (fst (derive_phase js))))"
  by (auto simp: monitor_job_status_def Let_def split: api_result.splits prod.splits if_splits)

theorem patch_only_on_phase_change_witness:
  "monitor_job_status digest_billing_checkout ''checkout'' ''billing''
     [(''phase'', ''Running''), (''jobName'', ''paymentjob-checkout-4667bfe7'')]
     (cluster (observe (Some 1) None None))
     ''2024-01-01T00:00:20Z'' ''2024-01-01T00:00:20Z'' = Inr ([], [])"
proof -
  let ?js = "\<lparr>active = Some 1, succeeded = None, failed = None, conditions = None\<rparr>"
  let ?st = "[(''phase'', ''Running''), (''jobName'', ''paymentjob-checkout-4667bfe7'')]"
  have found: "cluster (observe (Some 1) None None)
      (resolve_job_name digest_billing_checkout ''checkout'' ''billing'' ?st) ''billing'' = Found ?js"
    by (simp add: observe_def)
  have same: "fst (derive_phase ?js) = current_phase ?st"
    by (simp add: derive_phase_def current_phase_def positive_def)
  show ?thesis
    using patch_only_on_phase_change [of "cluster (observe (Some 1) None None)"
        digest_billing_checkout "''checkout''" "''billing''" ?st
        "''2024-01-01T00:00:20Z''" "''2024-01-01T00:00:20Z''"]
      found same
    by blast
qed

subsection \<open>Sequences of ticks\<close>

lemma apply_patch_Nil: "apply_patch st [] = st"
  by (simp add: apply_patch_def)

lemma current_phase_patched: "current_phase (apply_patch st ((''phase'', p) # rest)) = p"
  by (simp add: apply_patch_def current_phase_def)

lemma monitor_not_found:
  "read (resolve_job_name H name ns st) ns = ApiException code \<Longrightarrow>
   monitor_job_status H name ns st read now1 now2 = (if code = 404 then Inr ([], []) else Inl code)"
  by (simp add: monitor_job_status_def Let_def)

lemma monitor_unchanged:
  "read (resolve_job_name H name ns st) ns = Found js \<Longrightarrow>
   derive_phase js = (p, m) \<Longrightarrow> p = current_phase st \<Longrightarrow>
   monitor_job_status H name ns st read now1 now2 = Inr ([], [])"
  by (simp add: monitor_job_status_def Let_def)

lemma monitor_changed:
  "read (resolve_job_name H name ns st) ns = Found js \<Longrightarrow>
   derive_phase js = (p, m) \<Longrightarrow> p \<noteq> current_phase st \<Longrightarrow>
   \<exists>rest events. monitor_job_status H name ns st read now1 now2
      = Inr ((''phase'', p) # rest, events)"
  by (simp add: monitor_job_status_def Let_def)

lemma tick_phase:
  "current_phase (tick H name ns st ob) =
     (case observed_phase H name ns st ob of None \<Rightarrow> current_phase st | Some p \<Rightarrow> p)"
proof (cases "cluster ob (resolve_job_name H name ns st) ns")
  case (ApiException code)
  then show ?thesis
    by (simp add: tick_def observed_phase_def monitor_not_found apply_patch_Nil)
next
  case (Found js)
  obtain p m where pm: "derive_phase js = (p, m)"
    by (cases "derive_phase js") blast
  show ?thesis
  proof (cases "p = current_phase st")
    case True
    with Found pm show ?thesis
      by (simp add: tick_def observed_phase_def apply_patch_Nil
          monitor_unchanged [where read = "cluster ob", OF Found pm])
  next
    case False
    from monitor_changed [where read = "cluster ob", OF Found pm False] obtain rest events where
      "monitor_job_status H name ns st (cluster ob) (clock1 ob) (clock2 ob)
         = Inr ((''phase'', p) # rest, events)"
      by blast
    with Found pm show ?thesis
      by (simp add: tick_def observed_phase_def current_phase_patched)
  qed
qed

lemma phase_le_refl: "phase_le p p"
  by (simp add: phase_le_def)

lemma tick_step:
  "phase_le (current_phase st) (current_phase (tick H name ns st ob)) \<longleftrightarrow>
     (case observed_phase H name ns st ob of None \<Rightarrow> True | Some p \<Rightarrow> phase_le (current_phase st) p)"
  by (simp add: tick_phase phase_le_refl split: option.splits)

lemma ticks_chain:
  "nondecreasing (current_phase st # map current_phase (ticks H name ns st obs))
     \<longleftrightarrow> observed_nondecreasing H name ns st obs"
proof (induction obs arbitrary: st)
  case Nil
  then show ?case by simp
next
  case (Cons ob obs)
  show ?case
    using Cons.IH [of "tick H name ns st ob"] tick_step [of st H name ns ob]
    by (simp add: Let_def)
qed

text \<open>
  C2, as the code has it. A tick that finds the Job records the phase derived from the
  Job's counters at that tick, whatever phase was recorded before; a tick that does not
  find it, or whose lookup fails, leaves the recorded phase as it was. So over a
  sequence of ticks the recorded phases never regress exactly when no tick derives a
  phase below the one recorded before it.
\<close>

theorem recorded_phase_follows_derived:
  "current_phase (tick H name ns st ob) =
     (case observed_phase H name ns st ob of None \<Rightarrow> current_phase st | Some p \<Rightarrow> p)
   \<and> (nondecreasing (current_phase st # map current_phase (ticks H name ns st obs))
        \<longleftrightarrow> observed_nondecreasing H name ns st obs)"
  using tick_phase ticks_chain by blast


lemma observed_phase_observe:
  "observed_phase H name ns st (observe a s f)
     = Some (spec_phase \<lparr>active = a, succeeded = s, failed = f, conditions = None\<rparr>)"
  by (simp add: observed_phase_def observe_def derive_phase_priority)

lemma tick_observe:
  "current_phase (tick H name ns st (observe a s f))
     = spec_phase \<lparr>active = a, succeeded = s, failed = f, conditions = None\<rparr>"
  by (simp add: tick_phase observed_phase_observe)

lemma spec_phase_examples:
  "spec_phase \<lparr>active = None, succeeded = None, failed = None, conditions = None\<rparr> = ''Pending''"
  "spec_phase \<lparr>active = Some 1, succeeded = None, failed = None, conditions = None\<rparr> = ''Running''"
  "spec_phase \<lparr>active = None, succeeded = Some 1, failed = None, conditions = None\<rparr> = ''Succeeded''"
  by (simp_all add: spec_phase_def positive_def)

lemma current_phase_Nil: "current_phase [] = ''Pending''"
  by (simp add: current_phase_def)

lemma phase_le_examples:
  "phase_le ''Pending'' ''Running''" "phase_le ''Running'' ''Succeeded''"
  "\<not> phase_le ''Running'' ''Pending''"
  by (simp_all add: phase_le_def phase_rank_def)

text \<open>
  C2 as stated fails: from an empty status, a tick that sees one active pod records
  Running, and the next tick, which sees no active, succeeded or failed pod, records
  Pending again.
\<close>

theorem phase_regresses:
  "\<not> nondecreasing (current_phase [] # map current_phase
       (ticks digest_billing_checkout ''checkout'' ''billing'' []
          [observe (Some 1) None None, observe None None None]))"
  unfolding ticks_chain
  by (simp add: observed_phase_observe tick_observe spec_phase_examples current_phase_Nil
      phase_le_examples)

theorem recorded_phase_follows_derived_witness:
  "observed_nondecreasing digest_billing_checkout ''checkout'' ''billing'' []
     [observe None None None, observe (Some 1) None None, observe None (Some 1) None]
   \<and> nondecreasing (current_phase [] # map current_phase
       (ticks digest_billing_checkout ''checkout'' ''billing'' []
          [observe None None None, observe (Some 1) None None, observe None (Some 1) None]))"
proof -
  have h: "observed_nondecreasing digest_billing_checkout ''checkout'' ''billing'' []
     [observe None None None, observe (Some 1) None None, observe None (Some 1) None]"
    by (simp add: observed_phase_observe tick_observe spec_phase_examples current_phase_Nil
      phase_le_examples phase_le_refl)
  show ?thesis
    using h recorded_phase_follows_derived [of digest_billing_checkout "''checkout''" "''billing''" "[]"
        "observe None None None"
        "[observe None None None, observe (Some 1) None None, observe None (Some 1) None]"]
    by blast
qed

section \<open>Properties of the worker\<close>

subsection \<open>The five ways through process_message\<close>

lemma process_message_goes_through:
  assumes "parse_body L (body d) = Inr p" "db d = Commits"
  shows "process_message cfg L (w, wd) d =
     (let row = \<lparr>payment_id = next_id wd, received_at = utcnow d, payload = p,
                 payment_message_id = (if truthy (message_id d) then message_id d else None),
                 source_queue = QUEUE_NAME cfg\<rparr>;
          w' = w\<lparr>messages_processed := messages_processed w + 1\<rparr>;
          stop = cap_reached (MAX_MESSAGES cfg) (messages_processed w + 1)
      in (w', wd\<lparr>payments := payments wd @ [row], next_id := Suc (next_id wd),
                 trace := trace wd @ [Execute row, Commit, Ack (delivery_tag d)]
                            @ (if stop then [StopConsuming] else []),
                 consuming := consuming wd \<and> \<not> stop\<rparr>))"
  using assms
  by (simp add: process_message_def insert_payment_def basic_ack_def stop_consuming_def Let_def)

lemma process_message_invalid_json:
  assumes "parse_body L (body d) = Inl JSONDecodeError"
  shows "process_message cfg L (w, wd) d
           = (w, wd\<lparr>trace := trace wd @ [Nack (delivery_tag d) False]\<rparr>)"
  using assms by (simp add: process_message_def basic_nack_def Let_def)

lemma process_message_parse_raises:
  assumes "parse_body L (body d) = Inl e" "e \<noteq> JSONDecodeError"
  shows "process_message cfg L (w, wd) d
           = (if e = Psycopg2Error \<and> reconnects d then w\<lparr>pg_conn := Suc (pg_conn w)\<rparr> else w,
              wd\<lparr>trace := trace wd @ [Nack (delivery_tag d) True]\<rparr>)"
  using assms by (simp add: process_message_def except_handlers_def basic_nack_def Let_def)

lemma process_message_execute_raises:
  assumes "parse_body L (body d) = Inr p" "db d = ExecuteRaises e"
  shows "process_message cfg L (w, wd) d
           = (if e = Psycopg2Error \<and> reconnects d then w\<lparr>pg_conn := Suc (pg_conn w)\<rparr> else w,
              wd\<lparr>trace := trace wd @ [Nack (delivery_tag d) True]\<rparr>)"
  using assms
  by (simp add: process_message_def insert_payment_def except_handlers_def basic_nack_def Let_def)

lemma process_message_commit_raises:
  assumes "parse_body L (body d) = Inr p" "db d = CommitRaises e"
  shows "process_message cfg L (w, wd) d =
     (let row = \<lparr>payment_id = next_id wd, received_at = utcnow d, payload = p,
                 payment_message_id = (if truthy (message_id d) then message_id d else None),
                 source_queue = QUEUE_NAME cfg\<rparr>
      in (if e = Psycopg2Error \<and> reconnects d then w\<lparr>pg_conn := Suc (pg_conn w)\<rparr> else w,
          wd\<lparr>next_id := Suc (next_id wd),
             trace := trace wd @ [Execute row, Nack (delivery_tag d) True]\<rparr>))"
  using assms
  by (simp add: process_message_def insert_payment_def except_handlers_def basic_nack_def Let_def)


lemma goes_through_iff:
  "goes_through L d \<longleftrightarrow> (\<exists>p. parse_body L (body d) = Inr p) \<and> db d = Commits"
  by (simp add: goes_through_def split: sum.splits)

subsection \<open>Acknowledgment and persistence\<close>

text \<open>
  C1. Whatever the message, the database and the configuration, the events one call of
  \<open>process_message\<close> adds to the trace hold no acknowledgment that is not preceded by
  a commit; and when the call acknowledges, it acknowledges the message it was given,
  the body of that message parsed, and the row with the parsed payload has been
  appended to the committed rows.
\<close>

theorem ack_only_after_commit:
  "\<exists>evs. trace (snd (process_message cfg L (w, wd) d)) = trace wd @ evs
     \<and> commit_before_ack False evs
     \<and> (\<forall>tag. Ack tag \<in> set evs \<longrightarrow>
           tag = delivery_tag d
           \<and> (\<exists>row. payments (snd (process_message cfg L (w, wd) d)) = payments wd @ [row]
                    \<and> parse_body L (body d) = Inr (payload row)))"
proof (cases "parse_body L (body d)")
  case (Inl e)
  show ?thesis
  proof (cases "e = JSONDecodeError")
    case True
    with Inl show ?thesis by (simp add: process_message_invalid_json)
  next
    case False
    with Inl show ?thesis by (simp add: process_message_parse_raises)
  qed
next
  case (Inr p)
  show ?thesis
  proof (cases "db d")
    case Commits
    with Inr show ?thesis by (simp add: process_message_goes_through Let_def)
  next
    case (ExecuteRaises e)
    with Inr show ?thesis by (simp add: process_message_execute_raises)
  next
    case (CommitRaises e)
    with Inr show ?thesis by (simp add: process_message_commit_raises Let_def)
  qed
qed


subsection \<open>Bodies that do not parse\<close>

lemma parse_failure_persists_nothing:
  assumes "parse_body L (body d) = Inl e"
  shows "payments (snd (process_message cfg L (w, wd) d)) = payments wd"
proof (cases "e = JSONDecodeError")
  case True
  with assms show ?thesis by (simp add: process_message_invalid_json)
next
  case False
  with assms show ?thesis by (simp add: process_message_parse_raises)
qed

lemma utf8_decode_FF: "utf8_decode [0xFF] = None"
  by simp

lemma utf8_decode_null: "utf8_decode null_body = Some [110, 117, 108, 108]"
  by (simp add: null_body_def)

lemma parse_null: "parse_body loads_null null_body = Inr JNull"
  by (simp add: parse_body_def utf8_decode_null loads_null_def)

lemma good_delivery_goes_through: "goes_through loads_null (good_delivery tag)"
  by (simp add: goes_through_def good_delivery_def parse_null)

text \<open>
  C6. A body that is not UTF-8 fails to parse with \<open>UnicodeDecodeError\<close>, which the
  handler for \<open>json.JSONDecodeError\<close> does not catch: the message is nacked with
  requeue, not rejected. (A body that decodes and is refused by \<open>json.loads\<close> with
  \<open>JSONDecodeError\<close> is nacked without requeue, and no parse failure persists
  anything: the three lemmas above.)
\<close>

theorem undecodable_body_requeued:
  "parse_body L (body (undecodable_delivery 7)) = Inl UnicodeDecodeError
   \<and> process_message cfg L (w, wd) (undecodable_delivery 7)
       = (w, wd\<lparr>trace := trace wd @ [Nack 7 True]\<rparr>)"
proof -
  have p: "parse_body L (body (undecodable_delivery 7)) = Inl UnicodeDecodeError"
    by (simp add: parse_body_def undecodable_delivery_def)
  show ?thesis
    using p process_message_parse_raises [OF p, of cfg w wd]
    by (simp add: undecodable_delivery_def)
qed


subsection \<open>The processing cap\<close>

lemma step_goes_through:
  assumes "goes_through L d" "process_message cfg L (w, wd) d = (w', wd')"
  shows "messages_processed w' = messages_processed w + 1 \<and> acks wd' = acks wd + 1
       \<and> consuming wd' = (consuming wd \<and> \<not> cap_reached (MAX_MESSAGES cfg) (messages_processed w + 1))"
proof -
  from assms(1) obtain p where "parse_body L (body d) = Inr p" "db d = Commits"
    by (auto simp: goes_through_iff)
  with assms(2) show ?thesis
    by (auto simp: process_message_goes_through Let_def acks_def)
qed

lemma step_fails:
  assumes "\<not> goes_through L d" "process_message cfg L (w, wd) d = (w', wd')"
  shows "messages_processed w' = messages_processed w \<and> acks wd' = acks wd
       \<and> consuming wd' = consuming wd"
proof (cases "parse_body L (body d)")
  case (Inl e)
  show ?thesis
  proof (cases "e = JSONDecodeError")
    case True
    with Inl assms(2) show ?thesis
      by (auto simp: process_message_invalid_json acks_def)
  next
    case False
    with Inl assms(2) show ?thesis
      by (auto simp: process_message_parse_raises acks_def split: if_splits)
  qed
next
  case (Inr p)
  show ?thesis
  proof (cases "db d")
    case Commits
    with Inr assms(1) show ?thesis by (simp add: goes_through_def)
  next
    case (ExecuteRaises e)
    with Inr assms(2) show ?thesis
      by (auto simp: process_message_execute_raises acks_def split: if_splits)
  next
    case (CommitRaises e)
    with Inr assms(2) show ?thesis
      by (auto simp: process_message_commit_raises Let_def acks_def split: if_splits)
  qed
qed

lemma consume_uncapped:
  assumes "\<forall>m. \<not> cap_reached (MAX_MESSAGES cfg) m" "consuming wd"
    "consume cfg L (w, wd) ds = ((w', wd'), rest)"
  shows "rest = [] \<and> consuming wd' \<and> acks wd' = acks wd + length (filter (goes_through L) ds)"
  using assms(2,3)
proof (induction ds arbitrary: w wd)
  case Nil
  then show ?case by simp
next
  case (Cons d ds)
  obtain w1 wd1 where step: "process_message cfg L (w, wd) d = (w1, wd1)"
    by (cases "process_message cfg L (w, wd) d") blast
  show ?case
  proof (cases "goes_through L d")
    case True
    from step_goes_through [OF True step] assms(1) Cons.prems(1)
    have s: "acks wd1 = acks wd + 1" "consuming wd1" by auto
    with Cons.prems(2) step have "consume cfg L (w1, wd1) ds = ((w', wd'), rest)" by simp
    from Cons.IH [OF s(2) this] s(1) True show ?thesis by simp
  next
    case False
    from step_fails [OF False step] Cons.prems(1)
    have s: "acks wd1 = acks wd" "consuming wd1" by auto
    with Cons.prems(2) step have "consume cfg L (w1, wd1) ds = ((w', wd'), rest)" by simp
    from Cons.IH [OF s(2) this] s(1) False show ?thesis by simp
  qed
qed

lemma handled_cons:
  assumes ex: "\<exists>handled. ds = handled @ rest \<and> int (length (filter P handled)) = k
                 \<and> handled \<noteq> [] \<and> P (last handled)
                 \<and> consume cfg L s1 handled = (r, [])"
    and step: "process_message cfg L s d = s1" and go: "consuming (snd s1)"
  shows "\<exists>handled. d # ds = handled @ rest
           \<and> int (length (filter P handled)) = k + (if P d then 1 else 0)
           \<and> handled \<noteq> [] \<and> P (last handled)
           \<and> consume cfg L s handled = (r, [])"
proof -
  from ex obtain handled where h: "ds = handled @ rest" "int (length (filter P handled)) = k"
    "handled \<noteq> []" "P (last handled)" "consume cfg L s1 handled = (r, [])"
    by blast
  have a: "d # ds = (d # handled) @ rest" using h(1) by simp
  have b: "int (length (filter P (d # handled))) = k + (if P d then 1 else 0)"
    using h(2) by simp
  have c: "d # handled \<noteq> []" by simp
  have e: "P (last (d # handled))" using h(3,4) by simp
  have f: "consume cfg L s (d # handled) = (r, [])"
    using step go h(5) by simp
  from a b c e f show ?thesis by blast
qed

lemma handled_single:
  assumes "P d" "process_message cfg L s d = s1" "\<not> consuming (snd s1)"
  shows "\<exists>handled. d # ds = handled @ ds \<and> int (length (filter P handled)) = 1
           \<and> handled \<noteq> [] \<and> P (last handled)
           \<and> consume cfg L s handled = (s1, [])"
proof -
  have a: "d # ds = [d] @ ds" by simp
  have b: "int (length (filter P [d])) = 1" using assms(1) by simp
  have c: "[d] \<noteq> []" by simp
  have e: "P (last [d])" using assms(1) by simp
  have f: "consume cfg L s [d] = (s1, [])" using assms(2,3) by simp
  from a b c e f show ?thesis by blast
qed

lemma consume_capped:
  assumes cap: "MAX_MESSAGES cfg = Some N"
  shows "consuming wd \<Longrightarrow> 0 \<le> messages_processed w \<Longrightarrow> messages_processed w < N \<Longrightarrow>
     consume cfg L (w, wd) ds = ((w', wd'), rest) \<Longrightarrow>
     (if N - messages_processed w \<le> int (length (filter (goes_through L) ds))
      then acks wd' = acks wd + nat (N - messages_processed w) \<and> \<not> consuming wd'
           \<and> (\<exists>handled. ds = handled @ rest
                 \<and> int (length (filter (goes_through L) handled)) = N - messages_processed w
                 \<and> handled \<noteq> [] \<and> goes_through L (last handled)
                 \<and> consume cfg L (w, wd) handled = ((w', wd'), []))
      else acks wd' = acks wd + length (filter (goes_through L) ds) \<and> consuming wd' \<and> rest = [])"
proof (induction ds arbitrary: w wd)
  case Nil
  then show ?case by simp
next
  case (Cons d ds)
  let ?n = "int (length (filter (goes_through L) ds))"
  obtain w1 wd1 where step: "process_message cfg L (w, wd) d = (w1, wd1)"
    by (cases "process_message cfg L (w, wd) d") blast
  show ?case
  proof (cases "goes_through L d")
    case False
    from step_fails [OF False step] Cons.prems(1)
    have s: "messages_processed w1 = messages_processed w" "acks wd1 = acks wd" "consuming wd1"
      by simp_all
    from Cons.prems(4) step s(3) have run: "consume cfg L (w1, wd1) ds = ((w', wd'), rest)"
      by simp
    from Cons.prems(2,3) s(1) have pre: "0 \<le> messages_processed w1" "messages_processed w1 < N"
      by simp_all
    note ih = Cons.IH [OF s(3) pre run]
    have cnt: "int (length (filter (goes_through L) (d # ds))) = ?n"
      using False by simp
    have go: "consuming (snd (w1, wd1))" using s(3) by simp
    show ?thesis
    proof (cases "N - messages_processed w \<le> ?n")
      case True
      with ih s(1) have a: "acks wd' = acks wd1 + nat (N - messages_processed w)"
        "\<not> consuming wd'"
        "\<exists>handled. ds = handled @ rest
           \<and> int (length (filter (goes_through L) handled)) = N - messages_processed w
           \<and> handled \<noteq> [] \<and> goes_through L (last handled)
           \<and> consume cfg L (w1, wd1) handled = ((w', wd'), [])"
        by simp_all
      have ex: "\<exists>handled. d # ds = handled @ rest
           \<and> int (length (filter (goes_through L) handled)) = N - messages_processed w
           \<and> handled \<noteq> [] \<and> goes_through L (last handled)
           \<and> consume cfg L (w, wd) handled = ((w', wd'), [])"
        using handled_cons [where P = "goes_through L", OF a(3) step go] False by simp
      from ex a(1,2) s(2) True cnt show ?thesis
        by (simp only: if_True) simp
    next
      case few: False
      with ih s(1) have "acks wd' = acks wd1 + length (filter (goes_through L) ds)"
        "consuming wd'" "rest = []" by simp_all
      with few s(2) False show ?thesis by simp
    qed
  next
    case True
    from step_goes_through [OF True step] cap
    have s: "messages_processed w1 = messages_processed w + 1" "acks wd1 = acks wd + 1"
      "consuming wd1 = (consuming wd \<and> \<not> (N \<noteq> 0 \<and> N \<le> messages_processed w + 1))"
      by (simp_all add: cap_reached_def)
    have cnt: "int (length (filter (goes_through L) (d # ds))) = ?n + 1"
      using True by simp
    show ?thesis
    proof (cases "messages_processed w + 1 = N")
      case last: True
      with s(3) Cons.prems(2) have stop: "\<not> consuming wd1" by simp
      with Cons.prems(4) step have res: "w' = w1" "wd' = wd1" "rest = ds" by simp_all
      have one: "N - messages_processed w = 1" using last by simp
      have stop': "\<not> consuming (snd (w1, wd1))" using stop by simp
      have ex: "\<exists>handled. d # ds = handled @ rest
          \<and> int (length (filter (goes_through L) handled)) = N - messages_processed w
          \<and> handled \<noteq> [] \<and> goes_through L (last handled)
          \<and> consume cfg L (w, wd) handled = ((w', wd'), [])"
        unfolding one res by (rule handled_single [where P = "goes_through L", OF True step stop'])
      have "N - messages_processed w \<le> int (length (filter (goes_through L) (d # ds)))"
        using one cnt by simp
      moreover have "acks wd' = acks wd + nat (N - messages_processed w)"
        using res s(2) one by simp
      ultimately show ?thesis using ex stop res by (simp only: if_True) simp
    next
      case more: False
      with s(3) Cons.prems(1,3) have go: "consuming wd1" by simp
      with Cons.prems(4) step have run: "consume cfg L (w1, wd1) ds = ((w', wd'), rest)" by simp
      from more s(1) Cons.prems(2,3) have pre: "0 \<le> messages_processed w1" "messages_processed w1 < N"
        by simp_all
      note ih = Cons.IH [OF go pre run]
      have diff: "N - messages_processed w = (N - messages_processed w1) + 1"
        using s(1) by simp
      have go': "consuming (snd (w1, wd1))" using go by simp
      show ?thesis
      proof (cases "N - messages_processed w1 \<le> ?n")
        case enough: True
        with ih have a: "acks wd' = acks wd1 + nat (N - messages_processed w1)"
          "\<not> consuming wd'"
          "\<exists>handled. ds = handled @ rest
             \<and> int (length (filter (goes_through L) handled)) = N - messages_processed w1
             \<and> handled \<noteq> [] \<and> goes_through L (last handled)
             \<and> consume cfg L (w1, wd1) handled = ((w', wd'), [])"
          by simp_all
        have "\<exists>handled. d # ds = handled @ rest
             \<and> int (length (filter (goes_through L) handled))
                 = N - messages_processed w1 + (if goes_through L d then 1 else 0)
             \<and> handled \<noteq> [] \<and> goes_through L (last handled)
             \<and> consume cfg L (w, wd) handled = ((w', wd'), [])"
          by (rule handled_cons [where P = "goes_through L", OF a(3) step go'])
        then have ex: "\<exists>handled. d # ds = handled @ rest
             \<and> int (length (filter (goes_through L) handled)) = N - messages_processed w
             \<and> handled \<noteq> [] \<and> goes_through L (last handled)
             \<and> consume cfg L (w, wd) handled = ((w', wd'), [])"
          unfolding diff using True by (simp only: if_True)
        have le: "N - messages_processed w \<le> int (length (filter (goes_through L) (d # ds)))"
          using enough diff cnt by simp
        have "acks wd' = acks wd + nat (N - messages_processed w)"
          using a(1) s(2) diff pre by simp
        with ex a(2) le show ?thesis by (simp only: if_True) simp
      next
        case few: False
        with ih have a: "acks wd' = acks wd1 + length (filter (goes_through L) ds)"
          "consuming wd'" "rest = []" by simp_all
        have nle: "\<not> N - messages_processed w \<le> int (length (filter (goes_through L) (d # ds)))"
          using few diff cnt by simp
        have "acks wd' = acks wd + length (filter (goes_through L) (d # ds))"
          using a(1) s(2) True by simp
        with a(2,3) nle show ?thesis by (simp only: if_False)
      qed
    qed
  qed
qed

text \<open>
  C7, as the code has it. A worker that starts consuming with its counter at zero:
  with a cap N of at least 1, and at least N deliveries that go through, it
  acknowledges exactly N messages and stops consuming. The deliveries it was handed
  are a prefix of the queue that ends with the N-th delivery that goes through; the
  state it ends in is the state that prefix alone produces, so no delivery after the
  N-th acknowledged one is handed over, acknowledged or nacked. With fewer than N
  deliveries that go through it acknowledges those and goes on consuming; with no
  cap, or a cap of 0, it never stops and acknowledges every delivery that goes through.
\<close>

theorem cap_stops_consuming:
  assumes "consuming wd" "messages_processed w = 0"
    "consume cfg L (w, wd) ds = ((w', wd'), rest)"
  shows "(\<forall>N. MAX_MESSAGES cfg = Some N \<and> 1 \<le> N
              \<and> N \<le> int (length (filter (goes_through L) ds)) \<longrightarrow>
            acks wd' = acks wd + nat N \<and> \<not> consuming wd'
            \<and> (\<exists>handled. ds = handled @ rest
                  \<and> int (length (filter (goes_through L) handled)) = N
                  \<and> handled \<noteq> [] \<and> goes_through L (last handled)
                  \<and> consume cfg L (w, wd) handled = ((w', wd'), [])))
       \<and> (\<forall>N. MAX_MESSAGES cfg = Some N \<and> 1 \<le> N
              \<and> int (length (filter (goes_through L) ds)) < N \<longrightarrow>
            acks wd' = acks wd + length (filter (goes_through L) ds) \<and> consuming wd'
            \<and> rest = [])
       \<and> (MAX_MESSAGES cfg = None \<or> MAX_MESSAGES cfg = Some 0 \<longrightarrow>
            acks wd' = acks wd + length (filter (goes_through L) ds) \<and> consuming wd'
            \<and> rest = [])"
proof (intro conjI allI impI)
  fix N
  assume a: "MAX_MESSAGES cfg = Some N \<and> 1 \<le> N
              \<and> N \<le> int (length (filter (goes_through L) ds))"
  then have pre: "0 \<le> messages_processed w" "messages_processed w < N"
    using assms(2) by simp_all
  from a have cap: "MAX_MESSAGES cfg = Some N" by simp
  from a assms(2) have le: "N - messages_processed w \<le> int (length (filter (goes_through L) ds))"
    by simp
  from consume_capped [OF cap assms(1) pre assms(3)] le
  have b: "acks wd' = acks wd + nat (N - messages_processed w) \<and> \<not> consuming wd'
            \<and> (\<exists>handled. ds = handled @ rest
                  \<and> int (length (filter (goes_through L) handled)) = N - messages_processed w
                  \<and> handled \<noteq> [] \<and> goes_through L (last handled)
                  \<and> consume cfg L (w, wd) handled = ((w', wd'), []))"
    by (simp only: if_True simp_thms)
  have z: "N - messages_processed w = N" using assms(2) by simp
  from b show "acks wd' = acks wd + nat N" unfolding z by blast
  from b show "\<not> consuming wd'" by blast
  from b show "\<exists>handled. ds = handled @ rest
                  \<and> int (length (filter (goes_through L) handled)) = N
                  \<and> handled \<noteq> [] \<and> goes_through L (last handled)
                  \<and> consume cfg L (w, wd) handled = ((w', wd'), [])"
    unfolding z by blast
next
  fix N
  assume a: "MAX_MESSAGES cfg = Some N \<and> 1 \<le> N
              \<and> int (length (filter (goes_through L) ds)) < N"
  then have pre: "0 \<le> messages_processed w" "messages_processed w < N"
    using assms(2) by simp_all
  from a have cap: "MAX_MESSAGES cfg = Some N" by simp
  from consume_capped [OF cap assms(1) pre assms(3)] a assms(2)
  have b: "acks wd' = acks wd + length (filter (goes_through L) ds) \<and> consuming wd' \<and> rest = []"
    by simp
  from b show "acks wd' = acks wd + length (filter (goes_through L) ds)" by simp
  from b show "consuming wd'" by simp
  from b show "rest = []" by simp
next
  assume "MAX_MESSAGES cfg = None \<or> MAX_MESSAGES cfg = Some 0"
  then have "\<forall>m. \<not> cap_reached (MAX_MESSAGES cfg) m"
    by (auto simp: cap_reached_def)
  from consume_uncapped [OF this assms(1) assms(3)]
  show "acks wd' = acks wd + length (filter (goes_through L) ds)" "consuming wd'" "rest = []"
    by simp_all
qed

lemma consuming_fresh: "consuming fresh_world" "acks fresh_world = 0" "messages_processed fresh_worker = 0"
  by (simp_all add: fresh_world_def fresh_worker_def acks_def)

lemma two_good:
  "length (filter (goes_through loads_null) [good_delivery 7, good_delivery 8]) = 2"
  by (simp add: good_delivery_goes_through)

text \<open>
  C7 as stated fails for the cap 0: the worker acknowledges both of two queued
  messages and is still consuming, where the claim has it acknowledge none and stop.
\<close>

theorem cap_zero_never_stops:
  "acks (snd (fst (consume (default_config (Some 0)) loads_null (fresh_worker, fresh_world)
                     [good_delivery 7, good_delivery 8]))) = 2
   \<and> consuming (snd (fst (consume (default_config (Some 0)) loads_null (fresh_worker, fresh_world)
                     [good_delivery 7, good_delivery 8])))
   \<and> snd (consume (default_config (Some 0)) loads_null (fresh_worker, fresh_world)
                     [good_delivery 7, good_delivery 8]) = []"
proof -
  obtain w' wd' rest where run:
    "consume (default_config (Some 0)) loads_null (fresh_worker, fresh_world)
       [good_delivery 7, good_delivery 8] = ((w', wd'), rest)"
    by (metis surj_pair)
  have "\<forall>m. \<not> cap_reached (MAX_MESSAGES (default_config (Some 0))) m"
    by (simp add: cap_reached_def default_config_def)
  from consume_uncapped [OF this consuming_fresh(1) run]
  have "acks wd' = 2 \<and> consuming wd' \<and> rest = []"
    unfolding two_good consuming_fresh by simp
  then show ?thesis unfolding run by simp
qed

lemma undecodable_fails: "\<not> goes_through L (undecodable_delivery tag)"
  by (simp add: goes_through_def parse_body_def undecodable_delivery_def)

lemma two_of_three_good:
  "length (filter (goes_through loads_null)
             [good_delivery 7, undecodable_delivery 8, good_delivery 9]) = 2"
  by (simp add: good_delivery_goes_through undecodable_fails)

lemma first_good_reaches_cap_one:
  "snd (consume (default_config (Some 1)) loads_null (fresh_worker, fresh_world)
          (good_delivery 7 # ds)) = ds"
proof -
  obtain w1 wd1 where step:
    "process_message (default_config (Some 1)) loads_null (fresh_worker, fresh_world)
       (good_delivery 7) = (w1, wd1)"
    by (metis surj_pair)
  from step_goes_through [OF good_delivery_goes_through step]
  have "\<not> consuming wd1"
    by (simp add: cap_reached_def default_config_def fresh_worker_def)
  with step show ?thesis by simp
qed

theorem cap_stops_consuming_witness:
  "MAX_MESSAGES (default_config (Some 1)) = Some 1
   \<and> (1::int) \<le> int (length (filter (goes_through loads_null)
                          [good_delivery 7, undecodable_delivery 8, good_delivery 9]))
   \<and> acks (snd (fst (consume (default_config (Some 1)) loads_null (fresh_worker, fresh_world)
                     [good_delivery 7, undecodable_delivery 8, good_delivery 9]))) = 1
   \<and> \<not> consuming (snd (fst (consume (default_config (Some 1)) loads_null
                     (fresh_worker, fresh_world)
                     [good_delivery 7, undecodable_delivery 8, good_delivery 9])))
   \<and> snd (consume (default_config (Some 1)) loads_null (fresh_worker, fresh_world)
            [good_delivery 7, undecodable_delivery 8, good_delivery 9])
       = [undecodable_delivery 8, good_delivery 9]"
proof -
  obtain w' wd' rest where run:
    "consume (default_config (Some 1)) loads_null (fresh_worker, fresh_world)
       [good_delivery 7, undecodable_delivery 8, good_delivery 9] = ((w', wd'), rest)"
    by (metis surj_pair)
  have cap: "MAX_MESSAGES (default_config (Some 1)) = Some 1"
    by (simp add: default_config_def)
  have enough: "(1::int) \<le> int (length (filter (goes_through loads_null)
                    [good_delivery 7, undecodable_delivery 8, good_delivery 9]))"
    unfolding two_of_three_good by simp
  from cap_stops_consuming [OF consuming_fresh(1) consuming_fresh(3) run] cap enough
  have "acks wd' = acks fresh_world + nat 1 \<and> \<not> consuming wd'"
    by blast
  then have a: "acks wd' = 1 \<and> \<not> consuming wd'"
    unfolding consuming_fresh by simp
  have r: "rest = [undecodable_delivery 8, good_delivery 9]"
    using first_good_reaches_cap_one [of "[undecodable_delivery 8, good_delivery 9]"]
    unfolding run by simp
  from a r cap enough show ?thesis unfolding run by simp
qed

lemma tag_good: "delivery_tag (good_delivery tag) = tag"
  by (simp add: good_delivery_def)

theorem ack_only_after_commit_witness:
  "Ack 7 \<in> set (trace (snd (process_message (default_config None) loads_null
                               (fresh_worker, fresh_world) (good_delivery 7))))
   \<and> (\<exists>row. payments (snd (process_message (default_config None) loads_null
                               (fresh_worker, fresh_world) (good_delivery 7))) = [row]
            \<and> payload row = JNull)"
proof -
  let ?r = "process_message (default_config None) loads_null
              (fresh_worker, fresh_world) (good_delivery 7)"
  have p: "parse_body loads_null (body (good_delivery 7)) = Inr JNull"
    by (simp add: good_delivery_def parse_null)
  have c: "db (good_delivery 7) = Commits"
    by (simp add: good_delivery_def)
  have acked: "Ack 7 \<in> set (trace (snd ?r))"
    by (simp add: process_message_goes_through [OF p c] Let_def tag_good)
  from ack_only_after_commit [of "default_config None" loads_null fresh_worker fresh_world
      "good_delivery 7"]
  obtain evs where e: "trace (snd ?r) = trace fresh_world @ evs"
    "\<forall>tag. Ack tag \<in> set evs \<longrightarrow> tag = delivery_tag (good_delivery 7)
       \<and> (\<exists>row. payments (snd ?r) = payments fresh_world @ [row]
                \<and> parse_body loads_null (body (good_delivery 7)) = Inr (payload row))"
    by blast
  from e(1) acked have "Ack 7 \<in> set evs" by (simp add: fresh_world_def)
  with e(2) obtain row where "payments (snd ?r) = payments fresh_world @ [row]"
    "parse_body loads_null (body (good_delivery 7)) = Inr (payload row)"
    by blast
  with p have "payments (snd ?r) = [row] \<and> payload row = JNull"
    by (simp add: fresh_world_def)
  with acked show ?thesis by blast
qed


subsection \<open>Configuration from the environment\<close>









end
